theory Spec2Isabelle
  imports Complex_Main "HOL-Library.Multiset"
begin

section \<open>Overview\<close>

text \<open>
  A model of the core of the clang-tidy visualizer: the process invoker and the worker
  pool of \<open>ProcessUtils\<close>, the batching of \<open>ClangTidyRunner.runParallel\<close>, the text
  parser \<open>TextParser\<close> and the end of \<open>runClangTidyAnalysis\<close>. The definitions follow
  the TypeScript sources and quote them; the properties C1 to C10 are stated and proved
  after the definitions.
\<close>

section \<open>Data model\<close>

text \<open>
  JavaScript strings are modelled as \<open>string\<close> (lists of 8-bit characters, read as the
  code units of the text); JavaScript numbers that hold counts, exit codes and times as
  \<open>nat\<close> or \<open>int\<close>. A thrown value is either an \<open>Error\<close> object (with its
  \<open>message\<close>) or any other value (with its \<open>String(...)\<close> rendering): the two cases of
  \<^verbatim>\<open>error instanceof Error ? error.message : String(error)\<close>.
\<close>

datatype js_error = ErrorObject string | NonError string

fun error_message :: "js_error \<Rightarrow> string" where
  "error_message (ErrorObject message) = message"
| "error_message (NonError shown) = shown"

text \<open>\<^verbatim>\<open>interface ProcessResult { stdout; stderr; exitCode; duration }\<close>\<close>

record ProcessResult =
  stdout :: string
  stderr :: string
  exitCode :: int
  duration :: int

text \<open>A promise is pending, fulfilled with a value, or rejected with an error.\<close>

datatype 'a promise = Pending | Fulfilled 'a | Rejected js_error

text \<open>The task objects of \<open>executeParallel\<close>: \<^verbatim>\<open>{ command, args, options: { cwd } }\<close>.\<close>

record Task =
  command :: string
  args :: "string list"
  cwd :: "string option"

text \<open>
  \<^verbatim>\<open>interface ParallelResult extends RunResult { files }\<close>; the fields \<open>exitCode\<close> and
  \<open>duration\<close> of \<open>RunResult\<close> carry the prefix \<open>run\<close> here, since \<open>ProcessResult\<close> has
  fields of the same names.
\<close>

record RunResult =
  rawOutput :: string
  errorOutput :: string
  runExitCode :: int

record ParallelResult = RunResult +
  runDuration :: int
  files :: "string list"

section \<open>Process Invoker: \<open>ProcessUtils.executeCommand\<close>\<close>

text \<open>
  \<^verbatim>\<open>
  static async executeCommand(command, args, options?): Promise<ProcessResult> {
    const startTime = Date.now();
    return new Promise<ProcessResult>((resolve, reject) => {
      let stdout = '';
      let stderr = '';
      const child = child_process.spawn(command, args, {...});
      child.stdout.on('data', (data) => { stdout += data.toString(); });
      child.stderr.on('data', (data) => { stderr += data.toString(); });
      child.on('close', (exitCode) => {
        const duration = Date.now() - startTime;
        resolve({ stdout, stderr, exitCode: exitCode || 0, duration });
      });
      child.on('error', (error) => { reject(error); });
    });
  }
  \<close>
  What the spawned child does is the input of the model: either \<open>spawn\<close> throws inside
  the promise executor, or the child emits a sequence of events. A \<open>close\<close> event carries
  the exit code (\<open>null\<close> is \<open>None\<close>, as when a signal ends the child) and the clock reading
  of its handler. A promise settles once: later \<open>resolve\<close> and \<open>reject\<close> calls change
  nothing. A child that never emits \<open>close\<close> or \<open>error\<close> leaves the promise \<open>Pending\<close>.
\<close>

datatype child_event =
    StdoutData string
  | StderrData string
  | CloseEvent "int option" int
  | ErrorEvent js_error

datatype child_run = SpawnThrows js_error | Spawned "child_event list"

record invoker_state =
  stdout_acc :: string
  stderr_acc :: string
  settled :: "ProcessResult promise"

definition resolve :: "'a promise \<Rightarrow> 'a \<Rightarrow> 'a promise" where
  "resolve p v = (case p of Pending \<Rightarrow> Fulfilled v | _ \<Rightarrow> p)"

definition reject :: "'a promise \<Rightarrow> js_error \<Rightarrow> 'a promise" where
  "reject p e = (case p of Pending \<Rightarrow> Rejected e | _ \<Rightarrow> p)"

text \<open>\<^verbatim>\<open>exitCode || 0\<close> on \<open>number | null\<close>: \<open>null\<close> and \<open>0\<close> are falsy.\<close>

definition or_zero :: "int option \<Rightarrow> int" where
  "or_zero code = (case code of None \<Rightarrow> 0 | Some c \<Rightarrow> if c = 0 then 0 else c)"

fun on_event :: "int \<Rightarrow> invoker_state \<Rightarrow> child_event \<Rightarrow> invoker_state" where
  "on_event startTime s (StdoutData d) = s\<lparr>stdout_acc := stdout_acc s @ d\<rparr>"
| "on_event startTime s (StderrData d) = s\<lparr>stderr_acc := stderr_acc s @ d\<rparr>"
| "on_event startTime s (CloseEvent code now) =
     s\<lparr>settled := resolve (settled s)
        \<lparr>stdout = stdout_acc s, stderr = stderr_acc s,
         exitCode = or_zero code, duration = now - startTime\<rparr>\<rparr>"
| "on_event startTime s (ErrorEvent e) = s\<lparr>settled := reject (settled s) e\<rparr>"

definition executeCommand :: "int \<Rightarrow> child_run \<Rightarrow> ProcessResult promise" where
  "executeCommand startTime run =
     (case run of
        SpawnThrows e \<Rightarrow> Rejected e
      | Spawned events \<Rightarrow>
          settled (foldl (on_event startTime)
                     \<lparr>stdout_acc = [], stderr_acc = [], settled = Pending\<rparr> events))"

text \<open>The events that settle the promise.\<close>

fun settles :: "child_event \<Rightarrow> bool" where
  "settles (CloseEvent _ _) = True"
| "settles (ErrorEvent _) = True"
| "settles _ = False"

section \<open>Worker-Pool Scheduler: \<open>ProcessUtils.executeParallel\<close>\<close>

text \<open>
  \<^verbatim>\<open>
  const results: ProcessResult[] = [];
  const queue = [...tasks];
  let completedTasks = 0;
  const totalTasks = tasks.length;
  const executeNext = async () => {
    while (queue.length > 0) {
      const taskIndex = totalTasks - queue.length;
      const task = queue.shift()!;
      try {
        const result = await this.executeCommand(task.command, task.args, task.options);
        results.push(result);
      } catch (error) {
        const errorMsg = error instanceof Error ? error.message : String(error);
        results.push({ stdout: '', stderr: errorMsg, exitCode: 1, duration: 0 });
      } finally {
        completedTasks++;
        if (onProgress) { onProgress(completedTasks, totalTasks); }
      }
    }
  };
  const actualWorkers = Math.min(maxWorkers, tasks.length);
  for (let i = 0; i < actualWorkers; i++) { workers.add(executeNext()); }
  await Promise.all(workers);
  return results;
  \<close>
  The pool runs on one JavaScript thread: a worker runs until its \<open>await\<close>, and resumes
  when the awaited promise settles. The state is the shared \<open>queue\<close>, the promises the
  suspended workers await, the shared \<open>results\<close> array, the counter and the calls made to
  \<open>onProgress\<close> (the optional callback is modelled by the list of its calls). Logging
  is left out. The parameter \<open>invoke\<close> stands for \<open>executeCommand\<close> applied to a task:
  the promise state that call ends in. It takes the position of the task as well
  (\<open>taskIndex\<close>, which the source computes for its log lines), so that equal tasks at
  different positions may end differently.
\<close>

record pool_state =
  queue :: "Task list"
  awaited :: "ProcessResult promise list"
  results :: "ProcessResult list"
  completedTasks :: nat
  progress :: "(nat \<times> nat) list"

text \<open>
  A worker at the head of its loop: with an empty queue it ends; otherwise it shifts
  the next task, calls \<open>executeCommand\<close> and suspends on the promise.
\<close>

definition worker_take ::
  "(nat \<Rightarrow> Task \<Rightarrow> ProcessResult promise) \<Rightarrow> nat \<Rightarrow> pool_state \<Rightarrow> pool_state" where
  "worker_take invoke totalTasks st =
     (case queue st of
        [] \<Rightarrow> st
      | task # rest \<Rightarrow>
          let taskIndex = totalTasks - length (queue st)
          in st\<lparr>queue := rest, awaited := awaited st @ [invoke taskIndex task]\<rparr>)"

text \<open>
  What the \<open>try\<close>/\<open>catch\<close> pushes when the awaited promise settles: the result itself,
  or the synthetic result of a rejection. A pending promise never resumes its worker.
\<close>

fun task_result :: "ProcessResult promise \<Rightarrow> ProcessResult option" where
  "task_result (Fulfilled result) = Some result"
| "task_result (Rejected error) =
     Some \<lparr>stdout = [], stderr = error_message error, exitCode = 1, duration = 0\<rparr>"
| "task_result Pending = None"

text \<open>The worker awaiting promise \<open>k\<close> resumes: push, then the \<open>finally\<close> block.\<close>

definition worker_resume :: "nat \<Rightarrow> nat \<Rightarrow> ProcessResult \<Rightarrow> pool_state \<Rightarrow> pool_state" where
  "worker_resume totalTasks k r st =
     st\<lparr>awaited := take k (awaited st) @ drop (Suc k) (awaited st),
        results := results st @ [r],
        completedTasks := completedTasks st + 1,
        progress := progress st @ [(completedTasks st + 1, totalTasks)]\<rparr>"

text \<open>
  Which child finishes next is not decided by the program. The model takes the
  completion order as a schedule: each number chooses among the awaited promises that
  have settled (modulo their count; an exhausted schedule chooses the first). Every
  order in which the children can finish is the run of some schedule.
\<close>

definition ready :: "ProcessResult promise list \<Rightarrow> nat list" where
  "ready ps = filter (\<lambda>k. ps ! k \<noteq> Pending) [0..<length ps]"

definition pick :: "nat list \<Rightarrow> nat list \<Rightarrow> nat" where
  "pick sched rs = rs ! (case sched of [] \<Rightarrow> 0 | c # _ \<Rightarrow> c mod length rs)"

text \<open>
  The event loop until every worker has ended. If only pending promises are awaited,
  \<open>Promise.all\<close> never settles: the pool does not return (\<open>None\<close>).
\<close>

function run_workers ::
  "(nat \<Rightarrow> Task \<Rightarrow> ProcessResult promise) \<Rightarrow> nat \<Rightarrow> nat list \<Rightarrow> pool_state
     \<Rightarrow> pool_state option" where
  "run_workers invoke totalTasks sched st =
     (if awaited st = [] then Some st
      else if ready (awaited st) = [] then None
      else
        let k = pick sched (ready (awaited st)) in
        case task_result (awaited st ! k) of
          None \<Rightarrow> None
        | Some r \<Rightarrow>
            run_workers invoke totalTasks (tl sched)
              (worker_take invoke totalTasks (worker_resume totalTasks k r st)))"
  by pat_completeness auto
termination
proof (relation "measure (\<lambda>(invoke, totalTasks, sched, st). length (queue st) + length (awaited st))", goal_cases)
  case 1
  show ?case by simp
next
  case (2 invoke totalTasks sched st k r)
  from 2(2) have "pick sched (ready (awaited st)) \<in> set (ready (awaited st))"
    by (auto simp: pick_def split: list.splits)
  then have "k < length (awaited st)" using 2(3) by (simp add: ready_def)
  then show ?case
    by (cases "queue st") (simp_all add: worker_take_def worker_resume_def Let_def)
qed

definition executeParallel ::
  "(nat \<Rightarrow> Task \<Rightarrow> ProcessResult promise) \<Rightarrow> Task list \<Rightarrow> int \<Rightarrow> nat list
     \<Rightarrow> ProcessResult list option" where
  "executeParallel invoke tasks maxWorkers sched =
     (let totalTasks = length tasks;
          st0 = \<lparr>queue = tasks, awaited = [], results = [], completedTasks = 0, progress = []\<rparr>;
          actualWorkers = min maxWorkers (int (length tasks));
          st1 = (worker_take invoke totalTasks ^^ nat actualWorkers) st0
      in map_option results (run_workers invoke totalTasks sched st1))"

section \<open>Batch Builder: \<open>ProcessUtils.splitArray\<close> and \<open>ClangTidyRunner.runParallel\<close>\<close>

text \<open>
  \<^verbatim>\<open>
  static splitArray<T>(array: T[], batchSize: number): T[][] {
    const batches: T[][] = [];
    for (let i = 0; i < array.length; i += batchSize) {
      batches.push(array.slice(i, i + batchSize));
    }
    return batches;
  }
  \<close>
  The loop counter advances by \<open>batchSize\<close>; with \<open>batchSize = 0\<close> and a non-empty
  array it never leaves the loop. The loop is therefore a partial function: \<open>None\<close> is
  "does not return". \<open>array.slice(i, i + batchSize)\<close> is \<open>take batchSize (drop i array)\<close>.
\<close>

partial_function (option) splitArray_loop ::
  "'a list \<Rightarrow> nat \<Rightarrow> nat \<Rightarrow> 'a list list \<Rightarrow> 'a list list option" where
  "splitArray_loop array batchSize i batches =
     (if i < length array
      then splitArray_loop array batchSize (i + batchSize)
             (batches @ [take batchSize (drop i array)])
      else Some batches)"

definition splitArray :: "'a list \<Rightarrow> nat \<Rightarrow> 'a list list option" where
  "splitArray array batchSize = splitArray_loop array batchSize 0 []"

text \<open>
  \<open>Math.ceil(files.length / maxJobs)\<close> for a job count that is a positive integer
  (\<open>ConfigManager.getParallelJobs\<close> returns \<open>Math.max(1, Math.min(jobs, 8))\<close>). The
  quotient of two integers below \<open>2 ^ 53\<close> is rounded correctly by the double
  division, so the ceiling is the integer ceiling, computed here on \<open>nat\<close>.
\<close>

definition ceil_div :: "nat \<Rightarrow> nat \<Rightarrow> nat" where
  "ceil_div n j = (n + j - 1) div j"

definition runParallel_batches :: "'a list \<Rightarrow> nat \<Rightarrow> 'a list list option" where
  "runParallel_batches fileList maxJobs =
     (let batchSize = ceil_div (length fileList) maxJobs
      in splitArray fileList batchSize)"

text \<open>
  \<^verbatim>\<open>
  const tasks = batches.map((batch) => {
    return { command: this.clangTidyPath, args: this.buildArguments(batch, options),
             options: { cwd } };
  });
  const results = await ProcessUtils.executeParallel(tasks, maxJobs, onProgress);
  return results.map((result, index) => ({
    rawOutput: result.stdout, errorOutput: result.stderr, exitCode: result.exitCode,
    duration: result.duration, files: batches[index]
  }));
  \<close>
  \<open>buildArguments\<close> reads the configuration and the file system; it is a parameter
  here. \<open>results\<close> is never longer than \<open>batches\<close>, so pairing each result with
  \<open>batches[index]\<close> is \<open>zip\<close>.
\<close>

definition runParallel ::
  "(nat \<Rightarrow> Task \<Rightarrow> ProcessResult promise) \<Rightarrow> (string list \<Rightarrow> string list) \<Rightarrow> string
     \<Rightarrow> string option
     \<Rightarrow> string list \<Rightarrow> nat \<Rightarrow> nat list \<Rightarrow> ParallelResult list option" where
  "runParallel invoke buildArguments clangTidyPath workspaceRoot fileList maxJobs sched =
     (case runParallel_batches fileList maxJobs of
        None \<Rightarrow> None
      | Some batches \<Rightarrow>
          let tasks = map (\<lambda>batch. \<lparr>command = clangTidyPath, args = buildArguments batch,
                                    cwd = workspaceRoot\<rparr>) batches
          in case executeParallel invoke tasks (int maxJobs) sched of
               None \<Rightarrow> None
             | Some rs \<Rightarrow>
                 Some (map (\<lambda>(result, batch).
                         \<lparr>rawOutput = stdout result, errorOutput = stderr result,
                          runExitCode = exitCode result, runDuration = duration result,
                          files = batch\<rparr>)
                       (zip rs batches)))"

section \<open>Diagnostic Text Parser: \<open>TextParser\<close>\<close>

subsection \<open>Strings\<close>

text \<open>
  The characters of \<open>\s\<close> and of \<open>String.prototype.trim\<close> (white space and line
  terminators) among the code units below 256: tab, line feed, vertical tab, form feed,
  carriage return, space and no-break space.
\<close>

definition isSpace :: "char \<Rightarrow> bool" where
  "isSpace c = (c \<in> set [CHR 0x09, CHR 0x0A, CHR 0x0B, CHR 0x0C, CHR 0x0D, CHR 0x20, CHR 0xA0])"

definition isDigit :: "char \<Rightarrow> bool" where
  "isDigit c = (let n = (of_char c :: nat) in 48 \<le> n \<and> n \<le> 57)"

definition isUpper :: "char \<Rightarrow> bool" where
  "isUpper c = (let n = (of_char c :: nat) in 65 \<le> n \<and> n \<le> 90)"

definition isAlpha :: "char \<Rightarrow> bool" where
  "isAlpha c = (let n = (of_char c :: nat) in (65 \<le> n \<and> n \<le> 90) \<or> (97 \<le> n \<and> n \<le> 122))"

definition trim :: "string \<Rightarrow> string" where
  "trim s = rev (dropWhile isSpace (rev (dropWhile isSpace s)))"

text \<open>\<open>toLowerCase\<close>, on the letters the severity token can hold.\<close>

definition toLowerChar :: "char \<Rightarrow> char" where
  "toLowerChar c = (if isUpper c then char_of (of_char c + (32::nat)) else c)"

definition toLowerCase :: "string \<Rightarrow> string" where
  "toLowerCase s = map toLowerChar s"

text \<open>
  \<open>s.split(sep)\<close> for a one-character separator: the pieces between the separators,
  at least one piece (\<open>''''.split(sep)\<close> is \<open>['''']\<close>).
\<close>

fun split_first :: "char \<Rightarrow> string \<Rightarrow> string \<times> string list" where
  "split_first sep [] = ([], [])"
| "split_first sep (c # cs) =
     (case split_first sep cs of
        (piece, pieces) \<Rightarrow> if c = sep then ([], piece # pieces) else (c # piece, pieces))"

definition js_split :: "char \<Rightarrow> string \<Rightarrow> string list" where
  "js_split sep s = (case split_first sep s of (piece, pieces) \<Rightarrow> piece # pieces)"

text \<open>\<open>pieces.pop()\<close> of a split: its last piece.\<close>

definition last_piece :: "char \<Rightarrow> string \<Rightarrow> string" where
  "last_piece sep s = (case split_first sep s of (piece, pieces) \<Rightarrow> last (piece # pieces))"

text \<open>\<open>parseInt(digits, 10)\<close> on a string of decimal digits (what \<open>\d+\<close> captures).
  The value is the JavaScript number as long as it is below \<open>2 ^ 53\<close>; above, the
  JavaScript number is the nearest double, which this model does not follow.\<close>

definition parseInt10 :: "string \<Rightarrow> nat" where
  "parseInt10 s = foldl (\<lambda>acc c. 10 * acc + (of_char c - 48)) 0 s"

subsection \<open>Regular expressions\<close>

text \<open>
  The fragment of JavaScript regular expressions that \<open>TextParser\<close> uses, with the
  backtracking order of the language: a matcher returns every way to match at the start
  of the input, most preferred first, each with the rest of the input and the captures.
  A greedy \<open>+\<close> prefers longer matches, a lazy \<open>+?\<close> shorter ones, an optional group
  prefers to match. The match the engine reports is the first of the list.
\<close>

datatype rx =
    Chr "char \<Rightarrow> bool"
  | Rep nat "char \<Rightarrow> bool"
  | PlusG "char \<Rightarrow> bool"
  | PlusL "char \<Rightarrow> bool"
  | Seq rx rx
  | Opt rx
  | Cap nat rx
  | End

type_synonym captures = "nat \<Rightarrow> string option"

fun rx_match :: "rx \<Rightarrow> string \<times> captures \<Rightarrow> (string \<times> captures) list" where
  "rx_match (Chr P) (s, caps) =
     (case s of [] \<Rightarrow> [] | c # cs \<Rightarrow> if P c then [(cs, caps)] else [])"
| "rx_match (Rep n P) (s, caps) =
     (if n \<le> length s \<and> list_all P (take n s) then [(drop n s, caps)] else [])"
| "rx_match (PlusG P) (s, caps) =
     map (\<lambda>n. (drop n s, caps)) (rev [1..<Suc (length (takeWhile P s))])"
| "rx_match (PlusL P) (s, caps) =
     map (\<lambda>n. (drop n s, caps)) [1..<Suc (length (takeWhile P s))]"
| "rx_match (Seq a b) st = concat (map (rx_match b) (rx_match a st))"
| "rx_match (Opt a) st = rx_match a st @ [st]"
| "rx_match (Cap i a) (s, caps) =
     map (\<lambda>(s', caps'). (s', caps'(i \<mapsto> take (length s - length s') s)))
       (rx_match a (s, caps))"
| "rx_match End (s, caps) = (if s = [] then [(s, caps)] else [])"

text \<open>\<open>line.match(regex)\<close> and \<open>regex.test(line)\<close> for a regex that starts with \<open>^\<close>
  and has no flags: only a match at position 0 counts.\<close>

definition js_match :: "rx \<Rightarrow> string \<Rightarrow> captures option" where
  "js_match r s = (case rx_match r (s, Map.empty) of [] \<Rightarrow> None | (_, caps) # _ \<Rightarrow> Some caps)"

definition js_test :: "rx \<Rightarrow> string \<Rightarrow> bool" where
  "js_test r s = (rx_match r (s, Map.empty) \<noteq> [])"

text \<open>A capture group read from the match array; a group that did not take part is
  \<open>undefined\<close>, which the destructuring default \<^verbatim>\<open>checkName = ""\<close> turns into \<open>''''\<close>.
  Groups 1 to 5 of \<open>warningRegex\<close> take part in every match.\<close>

definition grp :: "captures \<Rightarrow> nat \<Rightarrow> string" where
  "grp caps i = (case caps i of None \<Rightarrow> [] | Some s \<Rightarrow> s)"

definition Lit :: "char \<Rightarrow> rx" where
  "Lit c = Chr (\<lambda>x. x = c)"

definition isSlash :: "char \<Rightarrow> bool" where
  "isSlash c = (c = CHR ''/'' \<or> c = CHR 0x5C)"

definition notColonNL :: "char \<Rightarrow> bool" where
  "notColonNL c = (c \<noteq> CHR '':'' \<and> c \<noteq> CHR 0x0A)"

definition notNL :: "char \<Rightarrow> bool" where
  "notNL c = (c \<noteq> CHR 0x0A)"

definition notRBracket :: "char \<Rightarrow> bool" where
  "notRBracket c = (c \<noteq> CHR '']'')"

text \<open>
  \<^verbatim>\<open>/^((?:[a-zA-Z]:)?[\/\\][^:\n]+):(\d+):(\d+):\s+([a-zA-Z]+):\s+([^\n]+?)(?:\s+\[([^\]]+)\])?$/\<close>
\<close>

definition warningRegex :: rx where
  "warningRegex =
     Seq (Cap 1 (Seq (Opt (Seq (Chr isAlpha) (Lit CHR '':'')))
                (Seq (Chr isSlash) (PlusG notColonNL))))
    (Seq (Lit CHR '':'') (Seq (Cap 2 (PlusG isDigit))
    (Seq (Lit CHR '':'') (Seq (Cap 3 (PlusG isDigit))
    (Seq (Lit CHR '':'') (Seq (PlusG isSpace) (Seq (Cap 4 (PlusG isAlpha))
    (Seq (Lit CHR '':'') (Seq (PlusG isSpace) (Seq (Cap 5 (PlusL notNL))
    (Seq (Opt (Seq (PlusG isSpace) (Seq (Lit CHR ''['')
           (Seq (Cap 6 (PlusG notRBracket)) (Lit CHR '']'')))))
     End)))))))))))"

text \<open>\<^verbatim>\<open>/^\s{3}\d+\s+\|/\<close> and \<^verbatim>\<open>/^\s+\|/\<close>\<close>

definition codeLineRegex :: rx where
  "codeLineRegex = Seq (Rep 3 isSpace) (Seq (PlusG isDigit) (Seq (PlusG isSpace) (Lit CHR ''|'')))"

definition detailLineRegex :: rx where
  "detailLineRegex = Seq (PlusG isSpace) (Lit CHR ''|'')"

subsection \<open>Diagnostics and the line loop\<close>

text \<open>\<^verbatim>\<open>interface ClangTidyDiagnostic\<close>; the optional fields are \<open>None\<close> when \<open>undefined\<close>.
  (The optional field \<open>fix\<close> is never written by the text parser and is left out.)\<close>

record ClangTidyDiagnostic =
  filePath :: string
  line :: nat
  column :: nat
  severity :: string
  message :: string
  checkName :: string
  codeLineFull :: "string option"
  caretLine :: "string option"
  fixSuggestion :: "string option"

text \<open>
  \<^verbatim>\<open>
  private validateSeverity(severity: string): 'error' | 'warning' | 'note' | 'fatal' | null {
    const validSeverities = ['error', 'warning', 'note', 'fatal'];
    return validSeverities.includes(severity) ? (severity as any) : null;
  }
  \<close>
\<close>

definition validSeverities :: "string list" where
  "validSeverities = [''error'', ''warning'', ''note'', ''fatal'']"

definition validateSeverity :: "string \<Rightarrow> string option" where
  "validateSeverity sev = (if sev \<in> set validSeverities then Some sev else None)"

text \<open>
  The state of the loop over the lines. \<open>currentDiagnostic\<close> is a reference to the
  object pushed last; it is the index of that object in \<open>diagnostics\<close>, and the
  assignments to its fields are updates of the array at that index.
\<close>

record parse_state =
  diagnostics :: "ClangTidyDiagnostic list"
  matchedWarnings :: nat
  invalidSeverities :: nat
  currentDiagnostic :: "nat option"

text \<open>
  The continuation lines of a diagnostic, the \<open>else if (currentDiagnostic)\<close> branch:
  \<^verbatim>\<open>
  const isCodeLine = /^\s{3}\d+\s+\|/.test(line);
  const isDiagnosticDetailLine = /^\s+\|/.test(line);
  if (isCodeLine || isDiagnosticDetailLine) {
    if (isCodeLine) {
      const codePart = line.split('|').pop()?.trim() || line;
      currentDiagnostic.codeLineFull = codePart;
    } else {
      if (line.trim().includes('^')) {
        currentDiagnostic.caretLine = line;
      } else {
        if (currentDiagnostic.fixSuggestion) {
          currentDiagnostic.fixSuggestion += '\n' + line;
        } else {
          currentDiagnostic.fixSuggestion = line;
        }
      }
    }
  } else {
    currentDiagnostic = null;
  }
  \<close>
  The result \<open>None\<close> is the last branch: the line does not belong to the diagnostic.
\<close>

definition continuation_line :: "ClangTidyDiagnostic \<Rightarrow> string \<Rightarrow> ClangTidyDiagnostic option" where
  "continuation_line d lineText =
     (let isCodeLine = js_test codeLineRegex lineText;
          isDiagnosticDetailLine = js_test detailLineRegex lineText
      in if isCodeLine \<or> isDiagnosticDetailLine then
           (if isCodeLine then
              (let codePart = (let p = trim (last_piece CHR ''|'' lineText) in if p = [] then lineText else p)
               in Some (d\<lparr>codeLineFull := Some codePart\<rparr>))
            else if CHR ''^'' \<in> set (trim lineText) then Some (d\<lparr>caretLine := Some lineText\<rparr>)
            else (case fixSuggestion d of
                    None \<Rightarrow> Some (d\<lparr>fixSuggestion := Some lineText\<rparr>)
                  | Some f \<Rightarrow>
                      if f = [] then Some (d\<lparr>fixSuggestion := Some lineText\<rparr>)
                      else Some (d\<lparr>fixSuggestion := Some (f @ [CHR 0x0A] @ lineText)\<rparr>)))
         else None)"

text \<open>
  One iteration of \<^verbatim>\<open>for (const line of lines)\<close>:
  \<^verbatim>\<open>
  if (!line.trim()) { currentDiagnostic = null; continue; }
  const warningMatch = line.match(warningRegex);
  if (warningMatch) {
    matchedWarnings++;
    const [, filePath, lineStr, columnStr, severityStr, message, checkName = ""] = warningMatch;
    const severity = this.validateSeverity(severityStr.toLowerCase());
    if (!severity) {
      invalidSeverities++;
      logger.warn(...);
      currentDiagnostic = null;
      continue;
    }
    const diagnostic = { filePath, line: parseInt(lineStr, 10), column: parseInt(columnStr, 10),
                         severity, message: message.trim(), checkName };
    diagnostics.push(diagnostic);
    currentDiagnostic = diagnostic;
  } else if (currentDiagnostic) { ... }
  \<close>
  The index read in the last branch is in range: \<open>currentDiagnostic\<close> is only ever set
  to the object just pushed.
\<close>

definition process_line :: "parse_state \<Rightarrow> string \<Rightarrow> parse_state" where
  "process_line st lineText =
     (if trim lineText = [] then st\<lparr>currentDiagnostic := None\<rparr>
      else
        case js_match warningRegex lineText of
          Some warningMatch \<Rightarrow>
            (let st1 = st\<lparr>matchedWarnings := matchedWarnings st + 1\<rparr>;
                 lineStr = grp warningMatch 2;
                 columnStr = grp warningMatch 3;
                 severityStr = grp warningMatch 4
             in case validateSeverity (toLowerCase severityStr) of
                  None \<Rightarrow>
                    st1\<lparr>invalidSeverities := invalidSeverities st1 + 1,
                        currentDiagnostic := None\<rparr>
                | Some sev \<Rightarrow>
                    (let diagnostic =
                       \<lparr>filePath = grp warningMatch 1,
                        line = parseInt10 lineStr,
                        column = parseInt10 columnStr,
                        severity = sev,
                        message = trim (grp warningMatch 5),
                        checkName = grp warningMatch 6,
                        codeLineFull = None, caretLine = None, fixSuggestion = None\<rparr>
                     in st1\<lparr>diagnostics := diagnostics st1 @ [diagnostic],
                            currentDiagnostic := Some (length (diagnostics st1))\<rparr>))
        | None \<Rightarrow>
            (case currentDiagnostic st of
               None \<Rightarrow> st
             | Some i \<Rightarrow>
                 (case continuation_line (diagnostics st ! i) lineText of
                    Some d \<Rightarrow> st\<lparr>diagnostics := (diagnostics st)[i := d]\<rparr>
                  | None \<Rightarrow> st\<lparr>currentDiagnostic := None\<rparr>)))"

definition parse_lines :: "string \<Rightarrow> parse_state" where
  "parse_lines text =
     foldl process_line
       \<lparr>diagnostics = [], matchedWarnings = 0, invalidSeverities = 0, currentDiagnostic = None\<rparr>
       (js_split CHR 0x0A text)"

subsection \<open>Enrichment from the source files\<close>

text \<open>
  The host of the parser: \<open>fs.readFileSync(path, 'utf8')\<close>, which returns the content
  or throws, and the longest string the engine builds (\<open>' '.repeat(n)\<close> and string
  concatenation throw a \<open>RangeError\<close> beyond it).
\<close>

record host =
  readFileSync :: "string \<Rightarrow> js_error + string"
  maxStringLength :: nat

text \<open>JavaScript truthiness of an optional string: \<open>undefined\<close> and the empty string
  are falsy.\<close>

definition truthy :: "string option \<Rightarrow> bool" where
  "truthy v = (case v of None \<Rightarrow> False | Some s \<Rightarrow> s \<noteq> [])"

text \<open>
  \<open>diagnosticsByFile\<close>: a \<open>Map\<close> from file path to the diagnostics of that file, in
  insertion order. The arrays of the map hold the objects of \<open>diagnostics\<close> themselves,
  here their indices.
\<close>

fun group_push :: "(string \<times> nat list) list \<Rightarrow> string \<Rightarrow> nat \<Rightarrow> (string \<times> nat list) list" where
  "group_push [] path i = [(path, [i])]"
| "group_push ((p, idxs) # groups) path i =
     (if p = path then (p, idxs @ [i]) # groups else (p, idxs) # group_push groups path i)"

definition diagnosticsByFile :: "ClangTidyDiagnostic list \<Rightarrow> (string \<times> nat list) list" where
  "diagnosticsByFile ds =
     foldl (\<lambda>groups i. group_push groups (filePath (ds ! i)) i) [] [0..<length ds]"

text \<open>
  \<^verbatim>\<open>
  const lineIndex = diagnostic.line - 1;
  if (lineIndex >= 0 && lineIndex < fileLines.length) {
    const codeLine = fileLines[lineIndex];
    if (!diagnostic.codeLineFull) { diagnostic.codeLineFull = codeLine; }
    if (!diagnostic.caretLine) {
      const position = Math.max(0, diagnostic.column - 1);
      const whitespace = ' '.repeat(position);
      diagnostic.caretLine = whitespace + '^';
    }
  }
  \<close>
  The body of the inner loop for one diagnostic. It returns the diagnostic as the body
  leaves it and the error thrown, if any: a throw while the caret line is built comes
  after the assignment to \<open>codeLineFull\<close>.
\<close>

definition enrich_one ::
  "nat \<Rightarrow> string list \<Rightarrow> ClangTidyDiagnostic \<Rightarrow> ClangTidyDiagnostic \<times> js_error option" where
  "enrich_one maxLen fileLines d =
     (let lineIndex = int (line d) - 1 in
      if 0 \<le> lineIndex \<and> lineIndex < int (length fileLines) then
        (let codeLine = fileLines ! nat lineIndex;
             d1 = (if \<not> truthy (codeLineFull d) then d\<lparr>codeLineFull := Some codeLine\<rparr> else d)
         in if \<not> truthy (caretLine d1) then
              (let position = nat (max 0 (int (column d1) - 1)) in
               if maxLen < position + 1
               then (d1, Some (ErrorObject ''Invalid string length''))
               else (d1\<lparr>caretLine := Some (replicate position CHR '' '' @ ''^'')\<rparr>, None))
            else (d1, None))
      else (d, None))"

fun enrich_group ::
  "nat \<Rightarrow> string list \<Rightarrow> ClangTidyDiagnostic list \<Rightarrow> nat list
     \<Rightarrow> ClangTidyDiagnostic list \<times> js_error option" where
  "enrich_group maxLen fileLines ds [] = (ds, None)"
| "enrich_group maxLen fileLines ds (i # rest) =
     (case enrich_one maxLen fileLines (ds ! i) of
        (d, Some e) \<Rightarrow> (ds[i := d], Some e)
      | (d, None) \<Rightarrow> enrich_group maxLen fileLines (ds[i := d]) rest)"

text \<open>One file of the map, inside its \<open>try\<close>: a failed read or a throw in the inner
  loop is caught (and logged), and the loop goes on with the next file.\<close>

definition enrich_file ::
  "host \<Rightarrow> ClangTidyDiagnostic list \<Rightarrow> string \<times> nat list \<Rightarrow> ClangTidyDiagnostic list" where
  "enrich_file h ds g =
     (case g of (path, idxs) \<Rightarrow>
        (case readFileSync h path of
           Inl e \<Rightarrow> ds
         | Inr content \<Rightarrow>
             fst (enrich_group (maxStringLength h) (js_split CHR 0x0A content) ds idxs)))"

definition enrichDiagnosticsWithSourceCode ::
  "host \<Rightarrow> ClangTidyDiagnostic list \<Rightarrow> ClangTidyDiagnostic list" where
  "enrichDiagnosticsWithSourceCode h ds = foldl (enrich_file h) ds (diagnosticsByFile ds)"

subsection \<open>\<open>transformTextToDiagnostics\<close> and \<open>parseClangTidyText\<close>\<close>

text \<open>
  \<open>transformTextToDiagnostics\<close> has no \<open>throw\<close> of its own and every call that can throw
  sits inside the \<open>try\<close> of the enrichment, so on a string it always returns its list
  (\<open>Inr\<close>). \<open>parseClangTidyText\<close> wraps it:
  \<^verbatim>\<open>
  try { return this.transformTextToDiagnostics(text); }
  catch (error) { logger.error(...); return []; }
  \<close>
\<close>

definition transformTextToDiagnostics :: "host \<Rightarrow> string \<Rightarrow> js_error + ClangTidyDiagnostic list" where
  "transformTextToDiagnostics h text =
     Inr (enrichDiagnosticsWithSourceCode h (diagnostics (parse_lines text)))"

definition parseClangTidyText :: "host \<Rightarrow> string \<Rightarrow> ClangTidyDiagnostic list" where
  "parseClangTidyText h text =
     (case transformTextToDiagnostics h text of Inr ds \<Rightarrow> ds | Inl error \<Rightarrow> [])"

section \<open>The analysis run: \<open>runClangTidyAnalysis\<close> in \<open>extension.ts\<close>\<close>

text \<open>
  \<^verbatim>\<open>
  const rawOutput = parallelResults.map(r => r.rawOutput).join('\n');
  const errorOutput = parallelResults.map(r => r.errorOutput).join('\n');
  const exitCode = parallelResults.some(r => r.exitCode !== 0) ? 1 : 0;
  result = { rawOutput, errorOutput, exitCode };
  \<close>
\<close>

fun join :: "string \<Rightarrow> string list \<Rightarrow> string" where
  "join sep [] = []"
| "join sep [x] = x"
| "join sep (x # y # ys) = x @ sep @ join sep (y # ys)"

definition merge_results :: "ParallelResult list \<Rightarrow> RunResult" where
  "merge_results parallelResults =
     \<lparr>rawOutput = join [CHR 0x0A] (map rawOutput parallelResults),
      errorOutput = join [CHR 0x0A] (map errorOutput parallelResults),
      runExitCode = (if list_ex (\<lambda>r. runExitCode r \<noteq> 0) parallelResults then 1 else 0)\<rparr>"

text \<open>
  \<^verbatim>\<open>
  if (result.exitCode !== 0 && !result.rawOutput) {
    vscode.window.showErrorMessage(i18n.t('error.analysisFailed', ..., result.errorOutput));
    return;
  }
  const diagnostics = textParser.parseClangTidyText(result.rawOutput);
  if (diagnostics.length === 0) {
    vscode.window.showInformationMessage(i18n.t('info.noIssuesFound'));
    return;
  }
  ... await webview.showReport(reportData, ...);
  \<close>
  The three ways the run ends, as what is shown to the user.
\<close>

datatype analysis_outcome =
    AnalysisFailed string
  | NoIssuesFound
  | ShowReport "ClangTidyDiagnostic list"

definition runClangTidyAnalysis_outcome :: "host \<Rightarrow> 'a RunResult_scheme \<Rightarrow> analysis_outcome" where
  "runClangTidyAnalysis_outcome h result =
     (if runExitCode result \<noteq> 0 \<and> rawOutput result = [] then AnalysisFailed (errorOutput result)
      else
        let ds = parseClangTidyText h (rawOutput result)
        in if length ds = 0 then NoIssuesFound else ShowReport ds)"

section \<open>Notions used to state the properties\<close>


text \<open>Two file systems for the examples: one where every read fails, one with a
  single readable file.\<close>

definition no_files :: "string \<Rightarrow> js_error + string" where
  "no_files path = Inl (ErrorObject ''ENOENT: no such file or directory'')"




section \<open>Properties of the Batch Builder\<close>






section \<open>Properties of the Process Invoker\<close>

lemma or_zero_null: "or_zero None = or_zero (Some 0)"
  by (simp add: or_zero_def)

lemma foldl_on_event_no_settle:
  "\<forall>e \<in> set evs. \<not> settles e \<Longrightarrow> settled (foldl (on_event t0) s evs) = settled s"
proof (induction evs arbitrary: s)
  case Nil
  show ?case by simp
next
  case (Cons e evs)
  then have "\<not> settles e" by simp
  then have "settled (on_event t0 s e) = settled s" by (cases e) simp_all
  then show ?case using Cons by simp
qed

lemma on_event_settled_once:
  "settled s \<noteq> Pending \<Longrightarrow> settled (on_event t0 s e) = settled s"
  by (cases e; cases "settled s") (simp_all add: resolve_def reject_def)

lemma foldl_on_event_settled_once:
  "settled s \<noteq> Pending \<Longrightarrow> settled (foldl (on_event t0) s evs) = settled s"
proof (induction evs arbitrary: s)
  case Nil
  show ?case by simp
next
  case (Cons e evs)
  have "settled (on_event t0 s e) = settled s" using Cons.prems by (rule on_event_settled_once)
  then show ?case using Cons by simp
qed

lemma on_event_settles:
  "settles e \<Longrightarrow> settled s = Pending \<Longrightarrow> settled (on_event t0 s e) \<noteq> Pending"
  by (cases e) (simp_all add: resolve_def reject_def)

lemma executeCommand_first_settling:
  assumes "\<forall>e \<in> set pre. \<not> settles e" and "settles ev"
  shows "executeCommand t0 (Spawned (pre @ ev # post)) =
         settled (on_event t0
           (foldl (on_event t0) \<lparr>stdout_acc = [], stderr_acc = [], settled = Pending\<rparr> pre) ev)"
proof -
  let ?s0 = "\<lparr>stdout_acc = [], stderr_acc = [], settled = Pending\<rparr>"
  let ?s1 = "foldl (on_event t0) ?s0 pre"
  have "settled ?s1 = Pending" using foldl_on_event_no_settle[OF assms(1), of t0 ?s0] by simp
  then have "settled (on_event t0 ?s1 ev) \<noteq> Pending" using assms(2) on_event_settles by blast
  then have "settled (foldl (on_event t0) (on_event t0 ?s1 ev) post) = settled (on_event t0 ?s1 ev)"
    by (rule foldl_on_event_settled_once)
  then show ?thesis by (simp add: executeCommand_def)
qed

lemma executeCommand_never_settles:
  assumes "\<forall>e \<in> set evs. \<not> settles e"
  shows "executeCommand t0 (Spawned evs) = Pending"
  using foldl_on_event_no_settle[OF assms] by (simp add: executeCommand_def)

lemma executeCommand_null_same:
  "executeCommand t0 (Spawned (pre @ CloseEvent None now # post))
   = executeCommand t0 (Spawned (pre @ CloseEvent (Some 0) now # post))"
  by (simp add: executeCommand_def or_zero_null)

lemma executeCommand_nonzero_cause:
  assumes "executeCommand t0 run = Fulfilled r" and "exitCode r \<noteq> 0"
  shows "\<exists>pre c now post. run = Spawned (pre @ CloseEvent (Some c) now # post) \<and> c \<noteq> 0
           \<and> exitCode r = c \<and> (\<forall>e \<in> set pre. \<not> settles e)"
proof (cases run)
  case (SpawnThrows e)
  then show ?thesis using assms(1) by (simp add: executeCommand_def)
next
  case (Spawned evs)
  have "\<exists>e \<in> set evs. settles e"
  proof (rule ccontr)
    assume "\<not> (\<exists>e \<in> set evs. settles e)"
    then have "executeCommand t0 (Spawned evs) = Pending"
      using executeCommand_never_settles by blast
    then show False using assms(1) Spawned by simp
  qed
  then obtain pre ev post where split: "evs = pre @ ev # post" "settles ev"
    "\<forall>e \<in> set pre. \<not> settles e"
    using split_list_first_prop[of evs settles] by blast
  let ?s1 = "foldl (on_event t0) \<lparr>stdout_acc = [], stderr_acc = [], settled = Pending\<rparr> pre"
  have s1: "settled ?s1 = Pending" using foldl_on_event_no_settle[OF split(3)] by simp
  have eq: "settled (on_event t0 ?s1 ev) = Fulfilled r"
    using executeCommand_first_settling[OF split(3) split(2), of t0 post] assms(1) Spawned split(1)
    by simp
  show ?thesis
  proof (cases ev)
    case (CloseEvent code now)
    then have "exitCode r = or_zero code" using eq s1 by (auto simp: resolve_def)
    then obtain c where "code = Some c" "c \<noteq> 0" "exitCode r = c"
      using assms(2) by (cases code) (auto simp: or_zero_def split: if_splits)
    then show ?thesis using Spawned split CloseEvent by blast
  next
    case (ErrorEvent e)
    then show ?thesis using eq s1 by (simp add: reject_def)
  next
    case (StdoutData d)
    then show ?thesis using split(2) by simp
  next
    case (StderrData d)
    then show ?thesis using split(2) by simp
  qed
qed

text \<open>
  C9. A child that closes with a \<open>null\<close> exit code gives the same promise as one that
  closes with exit code \<open>0\<close>; when no \<open>close\<close> or \<open>error\<close> event came before, that
  promise is fulfilled with \<open>exitCode = 0\<close>. The result recorded for an invocation has a
  non-zero \<open>exitCode\<close> only when the promise was rejected, or when the first settling
  event is a \<open>close\<close> with a non-zero numeric code.
\<close>

theorem executeCommand_null_exit_code:
  "executeCommand t0 (Spawned (pre @ CloseEvent None now # post))
     = executeCommand t0 (Spawned (pre @ CloseEvent (Some 0) now # post))
   \<and> ((\<forall>e \<in> set pre. \<not> settles e) \<longrightarrow>
        (\<exists>r. executeCommand t0 (Spawned (pre @ CloseEvent None now # post)) = Fulfilled r
             \<and> exitCode r = 0))
   \<and> (\<forall>r. task_result (executeCommand t0 run) = Some r \<and> exitCode r \<noteq> 0 \<longrightarrow>
        (\<exists>e. executeCommand t0 run = Rejected e)
        \<or> (\<exists>pre' c now' post'. run = Spawned (pre' @ CloseEvent (Some c) now' # post')
              \<and> c \<noteq> 0 \<and> (\<forall>e \<in> set pre'. \<not> settles e)))"
proof (intro conjI allI impI)
  show "executeCommand t0 (Spawned (pre @ CloseEvent None now # post))
     = executeCommand t0 (Spawned (pre @ CloseEvent (Some 0) now # post))"
    by (rule executeCommand_null_same)
next
  assume pre: "\<forall>e \<in> set pre. \<not> settles e"
  let ?s1 = "foldl (on_event t0) \<lparr>stdout_acc = [], stderr_acc = [], settled = Pending\<rparr> pre"
  have s1: "settled ?s1 = Pending" using foldl_on_event_no_settle[OF pre] by simp
  have "executeCommand t0 (Spawned (pre @ CloseEvent None now # post))
        = settled (on_event t0 ?s1 (CloseEvent None now))"
    using pre by (intro executeCommand_first_settling) simp_all
  then show "\<exists>r. executeCommand t0 (Spawned (pre @ CloseEvent None now # post)) = Fulfilled r
             \<and> exitCode r = 0"
    using s1 by (simp add: resolve_def or_zero_def)
next
  fix r
  assume a: "task_result (executeCommand t0 run) = Some r \<and> exitCode r \<noteq> 0"
  show "(\<exists>e. executeCommand t0 run = Rejected e)
        \<or> (\<exists>pre' c now' post'. run = Spawned (pre' @ CloseEvent (Some c) now' # post')
              \<and> c \<noteq> 0 \<and> (\<forall>e \<in> set pre'. \<not> settles e))"
  proof (cases "executeCommand t0 run")
    case Pending
    then show ?thesis using a by simp
  next
    case (Rejected e)
    then show ?thesis by blast
  next
    case (Fulfilled r')
    then have "r' = r" using a by simp
    then show ?thesis using executeCommand_nonzero_cause[of t0 run r] Fulfilled a by blast
  qed
qed

theorem executeCommand_null_exit_code_witness:
  "executeCommand 100 (Spawned ([StdoutData ''out''] @ CloseEvent None 130 # []))
     = Fulfilled \<lparr>stdout = ''out'', stderr = [], exitCode = 0, duration = 30\<rparr>
   \<and> executeCommand 100 (Spawned ([StdoutData ''out''] @ CloseEvent (Some 0) 130 # []))
     = Fulfilled \<lparr>stdout = ''out'', stderr = [], exitCode = 0, duration = 30\<rparr>
   \<and> task_result (executeCommand 100 (Spawned [StderrData ''e'', CloseEvent (Some 2) 130]))
     = Some \<lparr>stdout = [], stderr = ''e'', exitCode = 2, duration = 30\<rparr>
   \<and> (\<exists>pre' c now' post'.
         Spawned [StderrData ''e'', CloseEvent (Some 2) 130]
           = Spawned (pre' @ CloseEvent (Some c) now' # post')
         \<and> c \<noteq> 0 \<and> (\<forall>e \<in> set pre'. \<not> settles e))"
proof -
  have a: "executeCommand 100 (Spawned ([StdoutData ''out''] @ CloseEvent None 130 # []))
     = Fulfilled \<lparr>stdout = ''out'', stderr = [], exitCode = 0, duration = 30\<rparr>"
    by (simp add: executeCommand_def resolve_def or_zero_def)
  have b: "task_result (executeCommand 100 (Spawned [StderrData ''e'', CloseEvent (Some 2) 130]))
     = Some \<lparr>stdout = [], stderr = ''e'', exitCode = 2, duration = 30\<rparr>"
    by (simp add: executeCommand_def resolve_def or_zero_def)
  have c: "\<forall>e. executeCommand 100 (Spawned [StderrData ''e'', CloseEvent (Some 2) 130]) \<noteq> Rejected e"
    by (simp add: executeCommand_def resolve_def or_zero_def)
  note inst = executeCommand_null_exit_code
    [of 100 "[StdoutData ''out'']" 130 "[]" "Spawned [StderrData ''e'', CloseEvent (Some 2) 130]"]
  from inst have same: "executeCommand 100 (Spawned ([StdoutData ''out''] @ CloseEvent None 130 # []))
     = executeCommand 100 (Spawned ([StdoutData ''out''] @ CloseEvent (Some 0) 130 # []))"
    by blast
  from inst b c have
    "\<exists>pre' c now' post'.
         Spawned [StderrData ''e'', CloseEvent (Some 2) 130]
           = Spawned (pre' @ CloseEvent (Some c) now' # post')
         \<and> c \<noteq> 0 \<and> (\<forall>e \<in> set pre'. \<not> settles e)"
    by (metis ProcessResult.select_convs(3) zero_neq_numeral)
  then show ?thesis using a b same by simp
qed

section \<open>Properties of the Worker-Pool Scheduler\<close>

lemma ready_props: "k \<in> set (ready ps) \<Longrightarrow> k < length ps \<and> ps ! k \<noteq> Pending"
  by (auto simp: ready_def)

lemma pick_in: "rs \<noteq> [] \<Longrightarrow> pick sched rs \<in> set rs"
  by (auto simp: pick_def split: list.splits)

lemma pick_ready: "ready ps \<noteq> [] \<Longrightarrow> pick sched (ready ps) < length ps"
  using pick_in ready_props by blast

lemma ready_nonempty:
  assumes "ps \<noteq> []" "\<forall>p \<in> set ps. p \<noteq> Pending"
  shows "ready ps \<noteq> []"
proof -
  have "0 < length ps" using assms(1) by simp
  moreover have "ps ! 0 \<noteq> Pending" using assms by (cases ps) auto
  ultimately have "0 \<in> set (ready ps)" by (simp add: ready_def)
  then show ?thesis by auto
qed

lemma task_result_Some: "p \<noteq> Pending \<Longrightarrow> \<exists>r. task_result p = Some r"
  by (cases p) auto

lemma mset_remove_nth:
  "k < length xs \<Longrightarrow> mset (take k xs @ drop (Suc k) xs) + {#xs ! k#} = mset xs"
proof -
  assume "k < length xs"
  then have "xs = take k xs @ xs ! k # drop (Suc k) xs" by (rule id_take_nth_drop)
  then have "mset xs = mset (take k xs @ xs ! k # drop (Suc k) xs)" by simp
  then show ?thesis by simp
qed

lemma set_remove_nth: "set (take k xs @ drop (Suc k) xs) \<subseteq> set xs"
  by (auto dest: in_set_takeD in_set_dropD)

lemma upt_head: "k < n \<Longrightarrow> [k..<n] = k # [Suc k..<n]"
  by (simp add: upt_conv_Cons)

lemma run_workers_drains:
  assumes "\<forall>p \<in> set (awaited st). p \<noteq> Pending"
    and "\<forall>i < length tasks. invoke i (tasks ! i) \<noteq> Pending"
    and "awaited st = [] \<longrightarrow> queue st = []"
    and "queue st = drop k tasks" and "k \<le> length tasks"
  shows "\<exists>st'. run_workers invoke (length tasks) sched st = Some st'
           \<and> mset (map Some (results st')) =
               mset (map Some (results st)) + mset (map task_result (awaited st))
               + mset (map (\<lambda>i. task_result (invoke i (tasks ! i))) [k..<length tasks])"
  using assms(1,3,4,5)
proof (induction "length (queue st) + length (awaited st)" arbitrary: st sched k rule: less_induct)
  case less
  let ?n = "length tasks"
  let ?res = "\<lambda>i. task_result (invoke i (tasks ! i))"
  show ?case
  proof (cases "awaited st = []")
    case True
    then have "queue st = []" using less.prems(2) by simp
    then have "k = ?n" using less.prems(3,4) by simp
    then show ?thesis using True by simp
  next
    case False
    have rdy: "ready (awaited st) \<noteq> []"
      using False less.prems(1) by (rule ready_nonempty)
    define j where "j = pick sched (ready (awaited st))"
    have jin: "j \<in> set (ready (awaited st))" unfolding j_def using rdy by (rule pick_in)
    then have jlt: "j < length (awaited st)" and jnp: "awaited st ! j \<noteq> Pending"
      using ready_props by blast+
    obtain r where r: "task_result (awaited st ! j) = Some r"
      using task_result_Some[OF jnp] by blast
    define st1 where "st1 = worker_resume ?n j r st"
    define st2 where "st2 = worker_take invoke ?n st1"
    have unfold: "run_workers invoke ?n sched st = run_workers invoke ?n (tl sched) st2"
      using False rdy r by (simp add: j_def st1_def st2_def Let_def)
    have aw1: "awaited st1 = take j (awaited st) @ drop (Suc j) (awaited st)"
      and q1: "queue st1 = queue st" and r1: "results st1 = results st @ [r]"
      by (simp_all add: st1_def worker_resume_def)
    have aw1_set: "\<forall>p \<in> set (awaited st1). p \<noteq> Pending"
      using less.prems(1) set_remove_nth[of j "awaited st"] unfolding aw1 by blast
    have aw1_mset: "mset (map task_result (awaited st1)) + {#Some r#} = mset (map task_result (awaited st))"
    proof -
      have "mset (map task_result (awaited st1)) + {#task_result (awaited st ! j)#}
            = image_mset task_result (mset (awaited st1) + {#awaited st ! j#})" by simp
      also have "\<dots> = image_mset task_result (mset (awaited st))"
        unfolding aw1 using mset_remove_nth[OF jlt] by simp
      finally show ?thesis using r by simp
    qed
    have len1: "Suc (length (awaited st1)) = length (awaited st)"
      unfolding aw1 using jlt by simp
    show ?thesis
    proof (cases "k < ?n")
      case False
      then have k: "k = ?n" using less.prems(4) by simp
      then have q: "queue st = []" using less.prems(3) by simp
      have st2_eq: "st2 = st1" by (simp add: st2_def worker_take_def q1 q)
      have m: "length (queue st2) + length (awaited st2) < length (queue st) + length (awaited st)"
        using len1 by (simp add: st2_eq q1)
      have p1: "\<forall>p \<in> set (awaited st2). p \<noteq> Pending" using aw1_set by (simp add: st2_eq)
      have p3: "awaited st2 = [] \<longrightarrow> queue st2 = []" by (simp add: st2_eq q1 q)
      have p4: "queue st2 = drop k tasks" by (simp add: st2_eq q1 q k)
      from less.hyps[where st = st2 and k = k and sched = "tl sched", OF m p1 p3 p4 less.prems(4)]
      obtain st' where st': "run_workers invoke ?n (tl sched) st2 = Some st'"
        "mset (map Some (results st')) =
               mset (map Some (results st2)) + mset (map task_result (awaited st2))
               + mset (map ?res [k..<?n])" by blast
      have "mset (map Some (results st')) =
              mset (map Some (results st)) + mset (map task_result (awaited st))
               + mset (map ?res [k..<?n])"
        using st'(2) aw1_mset by (simp add: st2_eq r1)
      then show ?thesis using st'(1) unfold by simp
    next
      case True
      have q: "queue st = tasks ! k # drop (Suc k) tasks"
        using less.prems(3) True by (simp add: Cons_nth_drop_Suc)
      have idx: "?n - length (queue st) = k" using less.prems(3) True by simp
      have aw2: "awaited st2 = awaited st1 @ [invoke k (tasks ! k)]"
        and q2: "queue st2 = drop (Suc k) tasks" and r2: "results st2 = results st1"
        using idx by (simp_all add: st2_def worker_take_def q1 q Let_def)
      have m: "length (queue st2) + length (awaited st2) < length (queue st) + length (awaited st)"
        using len1 True by (simp add: aw2 q2 less.prems(3))
      have "invoke k (tasks ! k) \<noteq> Pending" using assms(2) True by blast
      then have p1: "\<forall>p \<in> set (awaited st2). p \<noteq> Pending"
        using aw1_set by (simp add: aw2)
      have p3: "awaited st2 = [] \<longrightarrow> queue st2 = []" by (simp add: aw2)
      have p5: "Suc k \<le> ?n" using True by simp
      from less.hyps[where st = st2 and k = "Suc k" and sched = "tl sched", OF m p1 p3 q2 p5]
      obtain st' where st': "run_workers invoke ?n (tl sched) st2 = Some st'"
        "mset (map Some (results st')) =
               mset (map Some (results st2)) + mset (map task_result (awaited st2))
               + mset (map ?res [Suc k..<?n])" by blast
      have "mset (map ?res [k..<?n]) = {#?res k#} + mset (map ?res [Suc k..<?n])"
        using upt_head[OF True] by simp
      then have "mset (map Some (results st')) =
              mset (map Some (results st)) + mset (map task_result (awaited st))
               + mset (map ?res [k..<?n])"
        using st'(2) aw1_mset[symmetric] by (simp add: aw2 r2 r1)
      then show ?thesis using st'(1) unfold by simp
    qed
  qed
qed

lemma worker_take_funpow:
  assumes "queue st = drop k tasks" and "k + m \<le> length tasks"
  shows "queue ((worker_take invoke (length tasks) ^^ m) st) = drop (k + m) tasks
   \<and> awaited ((worker_take invoke (length tasks) ^^ m) st)
       = awaited st @ map (\<lambda>i. invoke i (tasks ! i)) [k..<k + m]
   \<and> results ((worker_take invoke (length tasks) ^^ m) st) = results st"
  using assms
proof (induction m arbitrary: st k)
  case 0
  then show ?case by simp
next
  case (Suc m)
  let ?n = "length tasks"
  have k: "k < ?n" using Suc.prems(2) by simp
  have step: "(worker_take invoke ?n ^^ Suc m) st
              = (worker_take invoke ?n ^^ m) (worker_take invoke ?n st)"
    by (simp add: funpow_swap1)
  have q: "queue st = tasks ! k # drop (Suc k) tasks"
    using Suc.prems(1) k by (simp add: Cons_nth_drop_Suc)
  have idx: "?n - length (queue st) = k" using Suc.prems(1) k by simp
  define st1 where "st1 = worker_take invoke ?n st"
  have q1: "queue st1 = drop (Suc k) tasks"
    and a1: "awaited st1 = awaited st @ [invoke k (tasks ! k)]"
    and r1: "results st1 = results st"
    using idx by (simp_all add: st1_def worker_take_def q Let_def)
  have le: "Suc k + m \<le> ?n" using Suc.prems(2) by simp
  let ?f = "\<lambda>i. invoke i (tasks ! i)"
  let ?st' = "(worker_take invoke ?n ^^ m) st1"
  have upt: "[k..<k + Suc m] = k # [Suc k..<Suc k + m]"
    using upt_head[of k "k + Suc m"] by simp
  from Suc.IH[OF q1 le]
  have IH: "queue ?st' = drop (Suc k + m) tasks"
    "awaited ?st' = awaited st1 @ map ?f [Suc k..<Suc k + m]"
    "results ?st' = results st1" by blast+
  have aw: "awaited st @ map ?f [k..<k + Suc m] = awaited st1 @ map ?f [Suc k..<Suc k + m]"
    by (simp only: upt a1 list.map append_assoc append.simps)
  have same: "(worker_take invoke ?n ^^ Suc m) st = ?st'" by (simp only: step st1_def)
  have "queue ?st' = drop (k + Suc m) tasks" using IH(1) by simp
  moreover have "awaited ?st' = awaited st @ map ?f [k..<k + Suc m]" using IH(2) aw by simp
  moreover have "results ?st' = results st" using IH(3) r1 by simp
  ultimately show ?case unfolding same by blast
qed

lemma executeParallel_all_tasks:
  assumes "1 \<le> maxWorkers" and "\<forall>i < length tasks. invoke i (tasks ! i) \<noteq> Pending"
  shows "\<exists>rs. executeParallel invoke tasks maxWorkers sched = Some rs
           \<and> mset (map Some rs)
              = mset (map (\<lambda>i. task_result (invoke i (tasks ! i))) [0..<length tasks])"
proof -
  let ?n = "length tasks"
  let ?res = "\<lambda>i. task_result (invoke i (tasks ! i))"
  define st0 :: pool_state where
    "st0 = \<lparr>queue = tasks, awaited = [], results = [], completedTasks = 0, progress = []\<rparr>"
  define m where "m = nat (min maxWorkers (int ?n))"
  define st1 where "st1 = (worker_take invoke ?n ^^ m) st0"
  have m_le: "0 + m \<le> ?n" by (simp add: m_def)
  have q0: "queue st0 = drop 0 tasks" by (simp add: st0_def)
  have q: "queue st1 = drop m tasks"
    and a: "awaited st1 = map (\<lambda>i. invoke i (tasks ! i)) [0..<m]"
    and r: "results st1 = []"
    using worker_take_funpow[OF q0 m_le, of invoke] by (simp_all add: st1_def st0_def)
  have m_pos: "tasks \<noteq> [] \<Longrightarrow> 0 < m" using assms(1) by (cases tasks) (simp_all add: m_def)
  have p1: "\<forall>p \<in> set (awaited st1). p \<noteq> Pending"
    using assms(2) m_le unfolding a by auto
  have p3: "awaited st1 = [] \<longrightarrow> queue st1 = []"
    using m_pos unfolding a q by (cases tasks) auto
  have m_le': "m \<le> ?n" using m_le by simp
  from run_workers_drains[where st = st1 and tasks = tasks and invoke = invoke and k = m
      and sched = sched, OF p1 assms(2) p3 q m_le']
  obtain st' where st': "run_workers invoke ?n sched st1 = Some st'"
    "mset (map Some (results st')) =
       mset (map Some (results st1)) + mset (map task_result (awaited st1))
       + mset (map ?res [m..<?n])" by blast
  have "[0..<?n] = [0..<m] @ [m..<?n]"
    using m_le' by (metis le_add_diff_inverse upt_add_eq_append zero_le)
  then have "mset (map ?res [0..<?n]) = mset (map ?res [0..<m]) + mset (map ?res [m..<?n])"
    by simp
  then have "mset (map Some (results st')) = mset (map ?res [0..<?n])"
    using st'(2) by (simp add: a r comp_def)
  moreover have "executeParallel invoke tasks maxWorkers sched = Some (results st')"
    using st'(1) by (simp add: executeParallel_def Let_def st1_def st0_def m_def)
  ultimately show ?thesis by blast
qed

lemma executeParallel_length:
  assumes "1 \<le> maxWorkers" and "\<forall>i < length tasks. invoke i (tasks ! i) \<noteq> Pending"
    and "executeParallel invoke tasks maxWorkers sched = Some rs"
  shows "length rs = length tasks"
proof -
  from executeParallel_all_tasks[where invoke = invoke and tasks = tasks and sched = sched,
      OF assms(1,2)] assms(3)
  have "mset (map Some rs)
        = mset (map (\<lambda>i. task_result (invoke i (tasks ! i))) [0..<length tasks])" by simp
  then have "size (mset (map Some rs))
        = size (mset (map (\<lambda>i. task_result (invoke i (tasks ! i))) [0..<length tasks]))"
    by simp
  then show ?thesis by simp
qed

text \<open>
  C1. Two tasks, two workers, and the child of the second task finishes first (schedule
  \<open>[1]\<close>). \<open>executeParallel\<close> returns the results in completion order: the result at
  index 0 is the one of the second task. \<open>runParallel\<close> then pairs it with
  \<open>batches[0]\<close>, the files of the first task.
\<close>

theorem executeParallel_completion_order:
  "executeParallel
     (\<lambda>i t. if args t = [''a.cpp'']
          then Fulfilled \<lparr>stdout = ''A'', stderr = [], exitCode = 0, duration = 9\<rparr>
          else Fulfilled \<lparr>stdout = ''B'', stderr = [], exitCode = 0, duration = 1\<rparr>)
     [\<lparr>command = ''clang-tidy'', args = [''a.cpp''], cwd = None\<rparr>,
      \<lparr>command = ''clang-tidy'', args = [''b.cpp''], cwd = None\<rparr>] 2 [1]
   = Some [\<lparr>stdout = ''B'', stderr = [], exitCode = 0, duration = 1\<rparr>,
           \<lparr>stdout = ''A'', stderr = [], exitCode = 0, duration = 9\<rparr>]
   \<and> runParallel
     (\<lambda>i t. if args t = [''a.cpp'']
          then Fulfilled \<lparr>stdout = ''A'', stderr = [], exitCode = 0, duration = 9\<rparr>
          else Fulfilled \<lparr>stdout = ''B'', stderr = [], exitCode = 0, duration = 1\<rparr>)
     (\<lambda>batch. batch) ''clang-tidy'' None [''a.cpp'', ''b.cpp''] 2 [1]
   = Some [\<lparr>rawOutput = ''B'', errorOutput = [], runExitCode = 0, runDuration = 1,
            files = [''a.cpp'']\<rparr>,
           \<lparr>rawOutput = ''A'', errorOutput = [], runExitCode = 0, runDuration = 9,
            files = [''b.cpp'']\<rparr>]"
proof -
  let ?invoke = "\<lambda>i t. if args t = [''a.cpp'']
          then Fulfilled \<lparr>stdout = ''A'', stderr = [], exitCode = 0, duration = 9\<rparr>
          else Fulfilled \<lparr>stdout = ''B'', stderr = [], exitCode = 0, duration = 1\<rparr>"
  have pool: "executeParallel ?invoke
     [\<lparr>command = ''clang-tidy'', args = [''a.cpp''], cwd = None\<rparr>,
      \<lparr>command = ''clang-tidy'', args = [''b.cpp''], cwd = None\<rparr>] 2 [1]
   = Some [\<lparr>stdout = ''B'', stderr = [], exitCode = 0, duration = 1\<rparr>,
           \<lparr>stdout = ''A'', stderr = [], exitCode = 0, duration = 9\<rparr>]"
    by (simp add: executeParallel_def worker_take_def worker_resume_def
        ready_def pick_def numeral_2_eq_2 Let_def)
  have batches: "runParallel_batches [''a.cpp'', ''b.cpp''] 2 = Some [[''a.cpp''], [''b.cpp'']]"
    unfolding runParallel_batches_def splitArray_def Let_def ceil_div_def
    by (subst splitArray_loop.simps, simp)+
  have "runParallel ?invoke (\<lambda>batch. batch) ''clang-tidy'' None [''a.cpp'', ''b.cpp''] 2 [1]
   = Some [\<lparr>rawOutput = ''B'', errorOutput = [], runExitCode = 0, runDuration = 1,
            files = [''a.cpp'']\<rparr>,
           \<lparr>rawOutput = ''A'', errorOutput = [], runExitCode = 0, runDuration = 9,
            files = [''b.cpp'']\<rparr>]"
    unfolding runParallel_def batches using pool by simp
  then show ?thesis using pool by simp
qed

text \<open>
  C3. With at least one worker and children that all finish, whatever the order in which
  they finish: when \<open>executeCommand\<close> rejects for a task, the pool still returns, its
  results hold the synthetic result (empty stdout, the error message as stderr, exit
  code 1) and, counted with multiplicity, exactly one result for every task: the
  synthetic one for each rejected task and the invoker's own result for each other task.
\<close>

theorem executeParallel_failure_isolation:
  assumes "1 \<le> maxWorkers"
    and "\<forall>j < length tasks. invoke j (tasks ! j) \<noteq> Pending"
    and "i < length tasks"
    and "invoke i (tasks ! i) = Rejected e"
  shows "\<exists>rs. executeParallel invoke tasks maxWorkers sched = Some rs
           \<and> \<lparr>stdout = [], stderr = error_message e, exitCode = 1, duration = 0\<rparr> \<in> set rs
           \<and> mset (map Some rs)
              = mset (map (\<lambda>j. task_result (invoke j (tasks ! j))) [0..<length tasks])"
proof -
  from executeParallel_all_tasks[where invoke = invoke and tasks = tasks and sched = sched,
      OF assms(1,2)]
  obtain rs where rs: "executeParallel invoke tasks maxWorkers sched = Some rs"
    "mset (map Some rs)
     = mset (map (\<lambda>j. task_result (invoke j (tasks ! j))) [0..<length tasks])" by blast
  let ?syn = "\<lparr>stdout = [], stderr = error_message e, exitCode = 1, duration = 0\<rparr>"
  have "task_result (invoke i (tasks ! i))
        \<in> set (map (\<lambda>j. task_result (invoke j (tasks ! j))) [0..<length tasks])"
    using assms(3) by simp
  then have "Some ?syn \<in> set (map (\<lambda>j. task_result (invoke j (tasks ! j))) [0..<length tasks])"
    using assms(4) by simp
  then have "Some ?syn \<in># mset (map Some rs)" using rs(2) by simp
  then have "?syn \<in> set rs" by auto
  then show ?thesis using rs by blast
qed

theorem executeParallel_failure_isolation_witness:
  "executeParallel
     (\<lambda>i t. if args t = [''a.cpp''] then Rejected (ErrorObject ''spawn clang-tidy ENOENT'')
          else Fulfilled \<lparr>stdout = ''B'', stderr = [], exitCode = 0, duration = 1\<rparr>)
     [\<lparr>command = ''clang-tidy'', args = [''a.cpp''], cwd = None\<rparr>,
      \<lparr>command = ''clang-tidy'', args = [''b.cpp''], cwd = None\<rparr>] 2 [1]
   = Some [\<lparr>stdout = ''B'', stderr = [], exitCode = 0, duration = 1\<rparr>,
           \<lparr>stdout = [], stderr = ''spawn clang-tidy ENOENT'', exitCode = 1, duration = 0\<rparr>]
   \<and> (\<exists>rs. executeParallel
     (\<lambda>i t. if args t = [''a.cpp''] then Rejected (ErrorObject ''spawn clang-tidy ENOENT'')
          else Fulfilled \<lparr>stdout = ''B'', stderr = [], exitCode = 0, duration = 1\<rparr>)
     [\<lparr>command = ''clang-tidy'', args = [''a.cpp''], cwd = None\<rparr>,
      \<lparr>command = ''clang-tidy'', args = [''b.cpp''], cwd = None\<rparr>] 2 [1] = Some rs
      \<and> \<lparr>stdout = [], stderr = error_message (ErrorObject ''spawn clang-tidy ENOENT''),
          exitCode = 1, duration = 0\<rparr> \<in> set rs)"
proof -
  let ?invoke = "\<lambda>i t. if args t = [''a.cpp''] then Rejected (ErrorObject ''spawn clang-tidy ENOENT'')
          else Fulfilled \<lparr>stdout = ''B'', stderr = [], exitCode = 0, duration = 1\<rparr>"
  let ?tasks = "[\<lparr>command = ''clang-tidy'', args = [''a.cpp''], cwd = None\<rparr>,
      \<lparr>command = ''clang-tidy'', args = [''b.cpp''], cwd = None\<rparr>]"
  have h1: "(1::int) \<le> 2" by simp
  have h2: "\<forall>j < length ?tasks. ?invoke j (?tasks ! j) \<noteq> Pending" by simp
  have h3: "0 < length ?tasks" by simp
  have h4: "?invoke 0 (?tasks ! 0) = Rejected (ErrorObject ''spawn clang-tidy ENOENT'')" by simp
  have run: "executeParallel ?invoke ?tasks 2 [1]
   = Some [\<lparr>stdout = ''B'', stderr = [], exitCode = 0, duration = 1\<rparr>,
           \<lparr>stdout = [], stderr = ''spawn clang-tidy ENOENT'', exitCode = 1, duration = 0\<rparr>]"
    by (simp add: executeParallel_def worker_take_def worker_resume_def
        ready_def pick_def numeral_2_eq_2 Let_def)
  from executeParallel_failure_isolation[where invoke = ?invoke and tasks = ?tasks
      and sched = "[1]", OF h1 h2 h3 h4]
  have "\<exists>rs. executeParallel ?invoke ?tasks 2 [1] = Some rs
      \<and> \<lparr>stdout = [], stderr = error_message (ErrorObject ''spawn clang-tidy ENOENT''),
          exitCode = 1, duration = 0\<rparr> \<in> set rs"
    by blast
  then show ?thesis using run by blast
qed

section \<open>Properties of the enrichment pass\<close>














section \<open>Properties of the regular expressions\<close>

lemma takeWhile_span:
  assumes "\<forall>x \<in> set xs. P x" and "rest = [] \<or> \<not> P (hd rest)"
  shows "takeWhile P (xs @ rest) = xs"
proof -
  have "takeWhile P rest = []" using assms(2) by (cases rest) auto
  then show ?thesis using assms(1) by (simp add: takeWhile_append2)
qed

lemma concat_map_all_Nil: "(\<forall>x \<in> set xs. f x = []) \<Longrightarrow> concat (map f xs) = []"
  by (induction xs) auto

lemma rev_upt_from_1: "0 < m \<Longrightarrow> rev [1..<Suc m] = m # rev [1..<m]"
  by simp

text \<open>A greedy \<open>+\<close> whose continuation fails at every shorter length commits to the
  whole run.\<close>

lemma plusG_seq:
  assumes "xs \<noteq> []" and "\<forall>x \<in> set xs. P x" and "rest = [] \<or> \<not> P (hd rest)"
    and "\<And>n. 0 < n \<Longrightarrow> n < length xs \<Longrightarrow> rx_match k (drop n xs @ rest, caps) = []"
  shows "rx_match (Seq (PlusG P) k) (xs @ rest, caps) = rx_match k (rest, caps)"
proof -
  let ?m = "length xs"
  let ?f = "\<lambda>n. rx_match k (drop n (xs @ rest), caps)"
  have m: "0 < ?m" using assms(1) by simp
  have tw: "takeWhile P (xs @ rest) = xs" using assms(2,3) by (rule takeWhile_span)
  have "rx_match (Seq (PlusG P) k) (xs @ rest, caps) = concat (map ?f (rev [1..<Suc ?m]))"
    by (simp add: tw comp_def)
  also have "\<dots> = ?f ?m @ concat (map ?f (rev [1..<?m]))"
    using rev_upt_from_1[OF m] by simp
  also have "concat (map ?f (rev [1..<?m])) = []"
  proof (rule concat_map_all_Nil, rule ballI)
    fix n
    assume "n \<in> set (rev [1..<?m])"
    then have "0 < n" "n < ?m" by auto
    then show "?f n = []" using assms(4)[of n] by simp
  qed
  finally show ?thesis by simp
qed



lemma seq_chr_step:
  "Q x \<Longrightarrow> rx_match (Seq (Chr Q) k) (x # s, c) = rx_match k (s, c)"
  by simp

lemma chr_fails: "s = [] \<or> \<not> Q (hd s) \<Longrightarrow> rx_match (Chr Q) (s, c) = []"
  by (cases s) auto

lemma seq_plusG_fails:
  "s = [] \<or> \<not> Q (hd s) \<Longrightarrow> rx_match (Seq (PlusG Q) k) (s, c) = []"
  by (cases s) auto

lemma seq_cap_plusG_fails:
  "s = [] \<or> \<not> Q (hd s) \<Longrightarrow> rx_match (Seq (Cap i (PlusG Q)) k) (s, c) = []"
  by (cases s) auto

lemma hd_drop_in_set: "n < length xs \<Longrightarrow> hd (drop n xs @ rest) \<in> set xs"
  by (simp add: hd_append hd_drop_conv_nth)

subsection \<open>Blank lines, lines that start with white space\<close>

lemma trim_empty_iff: "trim s = [] \<longleftrightarrow> (\<forall>c \<in> set s. isSpace c)"
proof
  assume "trim s = []"
  then have all: "\<forall>x \<in> set (dropWhile isSpace s). isSpace x"
    by (simp add: trim_def dropWhile_eq_Nil_conv)
  have "dropWhile isSpace s = []"
  proof (rule ccontr)
    assume ne: "dropWhile isSpace s \<noteq> []"
    then have "\<not> isSpace (hd (dropWhile isSpace s))" by (rule hd_dropWhile)
    moreover have "hd (dropWhile isSpace s) \<in> set (dropWhile isSpace s)" using ne by simp
    ultimately show False using all by blast
  qed
  then show "\<forall>c \<in> set s. isSpace c" by (simp add: dropWhile_eq_Nil_conv)
next
  assume "\<forall>c \<in> set s. isSpace c"
  then have "dropWhile isSpace s = []" by (simp add: dropWhile_eq_Nil_conv)
  then show "trim s = []" by (simp only: trim_def dropWhile.simps rev.simps)
qed

lemma isSpace_not_alpha: "isSpace c \<Longrightarrow> \<not> isAlpha c"
  by (auto simp: isSpace_def isAlpha_def)

lemma isSpace_not_slash: "isSpace c \<Longrightarrow> \<not> isSlash c"
  by (auto simp: isSpace_def isSlash_def)

lemma isSpace_not_digit: "isSpace c \<Longrightarrow> \<not> isDigit c"
  by (auto simp: isSpace_def isDigit_def)

lemma warningRegex_needs_path_start:
  assumes "s = [] \<or> (\<not> isAlpha (hd s) \<and> \<not> isSlash (hd s))"
  shows "rx_match warningRegex (s, c) = []"
  using assms by (cases s) (auto simp: warningRegex_def)


lemma js_match_warning_space_start:
  assumes "s \<noteq> []" and "isSpace (hd s)"
  shows "js_match warningRegex s = None"
proof -
  have "\<not> isAlpha (hd s) \<and> \<not> isSlash (hd s)"
    using assms(2) isSpace_not_alpha isSpace_not_slash by blast
  then have "rx_match warningRegex (s, Map.empty) = []"
    by (intro warningRegex_needs_path_start) simp
  then show ?thesis by (simp add: js_match_def)
qed

subsection \<open>Splitting at a separator\<close>

lemma split_first_no_sep: "sep \<notin> set s \<Longrightarrow> split_first sep s = (s, [])"
  by (induction s) auto

lemma last_piece_no_sep: "sep \<notin> set s \<Longrightarrow> last_piece sep s = s"
  by (simp add: last_piece_def split_first_no_sep)

lemma split_first_pieces: "sep \<in> set s \<Longrightarrow> snd (split_first sep s) \<noteq> []"
  by (induction s) (auto split: prod.splits)

lemma last_piece_Cons_sep: "last_piece sep (sep # s) = last_piece sep s"
  by (simp add: last_piece_def split: prod.splits)

lemma last_piece_Cons_other:
  assumes "sep \<in> set s"
  shows "last_piece sep (c # s) = last_piece sep s"
proof (cases "c = sep")
  case True
  then show ?thesis by (simp add: last_piece_Cons_sep)
next
  case False
  obtain p ps where sp: "split_first sep s = (p, ps)" by (cases "split_first sep s")
  then have "ps \<noteq> []" using split_first_pieces[OF assms] by simp
  then show ?thesis using sp False by (simp add: last_piece_def)
qed

lemma last_piece_after_last_sep:
  assumes "sep \<notin> set rest"
  shows "last_piece sep (pre @ sep # rest) = rest"
proof (induction pre)
  case Nil
  show ?case using assms by (simp add: last_piece_Cons_sep last_piece_no_sep)
next
  case (Cons c pre)
  have "sep \<in> set (pre @ sep # rest)" by simp
  then have "last_piece sep (c # (pre @ sep # rest)) = last_piece sep (pre @ sep # rest)"
    by (rule last_piece_Cons_other)
  then show ?case using Cons by simp
qed

section \<open>Properties of the line loop\<close>

lemmas parser_eval =
  js_match_def js_test_def warningRegex_def codeLineRegex_def detailLineRegex_def Lit_def
  isSpace_def isDigit_def isAlpha_def isUpper_def isSlash_def notColonNL_def notNL_def
  notRBracket_def grp_def trim_def toLowerCase_def toLowerChar_def validateSeverity_def
  validSeverities_def parseInt10_def js_split_def last_piece_def process_line_def
  parse_lines_def continuation_line_def Let_def





lemma codeLineRegex_matches:
  assumes "length ws = 3" and "\<forall>c \<in> set ws. isSpace c"
    and "num \<noteq> []" and "\<forall>c \<in> set num. isDigit c"
    and "gap \<noteq> []" and "\<forall>c \<in> set gap. isSpace c"
  shows "js_test codeLineRegex (ws @ num @ gap @ CHR ''|'' # rest)"
proof -
  let ?tail = "Seq (PlusG isSpace) (Lit CHR ''|'')"
  have bar_not_space: "\<not> isSpace CHR ''|''" by (simp add: isSpace_def)
  have gap_step: "rx_match ?tail (gap @ CHR ''|'' # rest, c) = [(rest, c)]" for c
  proof -
    have "rx_match ?tail (gap @ CHR ''|'' # rest, c) = rx_match (Lit CHR ''|'') (CHR ''|'' # rest, c)"
    proof (rule plusG_seq[OF assms(5) assms(6)])
      show "CHR ''|'' # rest = [] \<or> \<not> isSpace (hd (CHR ''|'' # rest))"
        using bar_not_space by simp
    next
      fix n
      assume "0 < n" and n: "n < length gap"
      from n have "hd (drop n gap @ CHR ''|'' # rest) \<in> set gap" by (rule hd_drop_in_set)
      then have "hd (drop n gap @ CHR ''|'' # rest) \<noteq> CHR ''|''"
        using assms(6) bar_not_space by metis
      then show "rx_match (Lit CHR ''|'') (drop n gap @ CHR ''|'' # rest, c) = []"
        unfolding Lit_def by (intro chr_fails) simp
    qed
    then show ?thesis by (simp add: Lit_def)
  qed
  have gap_hd: "\<not> isDigit (hd (gap @ CHR ''|'' # rest))"
    using assms(5,6) isSpace_not_digit by (cases gap) auto
  have num_step: "rx_match (Seq (PlusG isDigit) ?tail) (num @ gap @ CHR ''|'' # rest, c)
                  = [(rest, c)]" for c
  proof -
    have "rx_match (Seq (PlusG isDigit) ?tail) (num @ (gap @ CHR ''|'' # rest), c)
          = rx_match ?tail (gap @ CHR ''|'' # rest, c)"
    proof (rule plusG_seq[OF assms(3) assms(4)])
      show "gap @ CHR ''|'' # rest = [] \<or> \<not> isDigit (hd (gap @ CHR ''|'' # rest))"
        using gap_hd by simp
    next
      fix n
      assume "0 < n" and n: "n < length num"
      from n have "hd (drop n num @ gap @ CHR ''|'' # rest) \<in> set num" by (rule hd_drop_in_set)
      then have "\<not> isSpace (hd (drop n num @ gap @ CHR ''|'' # rest))"
        using assms(4) isSpace_not_digit by blast
      then show "rx_match ?tail (drop n num @ gap @ CHR ''|'' # rest, c) = []"
        by (intro seq_plusG_fails) simp
    qed
    then show ?thesis using gap_step by simp
  qed
  have rep: "rx_match (Rep 3 isSpace) (ws @ num @ gap @ CHR ''|'' # rest, c)
             = [(num @ gap @ CHR ''|'' # rest, c)]" for c
    using assms(1,2) by (simp add: list_all_iff)
  have "rx_match codeLineRegex (ws @ num @ gap @ CHR ''|'' # rest, Map.empty) = [(rest, Map.empty)]"
    unfolding codeLineRegex_def using rep num_step by simp
  then show ?thesis by (simp add: js_test_def)
qed

text \<open>
  C6, in the form that holds of the code. While a diagnostic is in progress, a line of exactly three white-space
  characters, a line number, white space and a pipe, with no further pipe after it, sets
  the \<open>codeLineFull\<close> of the current diagnostic to the trimmed text after the pipe (to
  the whole line when that text is blank), and the diagnostic stays in progress.
\<close>

theorem code_line_sets_codeLineFull:
  assumes "currentDiagnostic st = Some i"
    and "length ws = 3" and "\<forall>c \<in> set ws. isSpace c"
    and "num \<noteq> []" and "\<forall>c \<in> set num. isDigit c"
    and "gap \<noteq> []" and "\<forall>c \<in> set gap. isSpace c"
    and "CHR ''|'' \<notin> set rest"
  shows "process_line st (ws @ num @ gap @ CHR ''|'' # rest) =
         st\<lparr>diagnostics := (diagnostics st)
              [i := (diagnostics st ! i)
                 \<lparr>codeLineFull :=
                    Some (if trim rest = [] then ws @ num @ gap @ CHR ''|'' # rest
                          else trim rest)\<rparr>]\<rparr>"
proof -
  let ?l = "ws @ num @ gap @ CHR ''|'' # rest"
  have ws_ne: "ws \<noteq> []" using assms(2) by auto
  then have hd_space: "isSpace (hd ?l)" using assms(3) by (cases ws) auto
  have l_ne: "?l \<noteq> []" using ws_ne by simp
  have no_match: "js_match warningRegex ?l = None"
    using l_ne hd_space by (rule js_match_warning_space_start)
  obtain d where d: "d \<in> set num" using assms(4) by (cases num) auto
  then have "\<not> isSpace d" using assms(5) isSpace_not_digit by blast
  then have not_blank: "trim ?l \<noteq> []" using d by (auto simp: trim_empty_iff)
  have code: "js_test codeLineRegex ?l"
    using assms(2-7) by (rule codeLineRegex_matches)
  have piece: "last_piece CHR ''|'' ?l = rest"
    using last_piece_after_last_sep[OF assms(8), of "ws @ num @ gap"] by simp
  have "continuation_line (diagnostics st ! i) ?l =
        Some ((diagnostics st ! i)
          \<lparr>codeLineFull := Some (if trim rest = [] then ?l else trim rest)\<rparr>)"
    unfolding continuation_line_def Let_def piece using code by simp
  then show ?thesis
    using not_blank no_match assms(1) by (simp add: process_line_def)
qed

theorem code_line_sets_codeLineFull_witness:
  "process_line
     \<lparr>diagnostics =
        [\<lparr>filePath = ''/p/f.cpp'', line = 5, column = 9, severity = ''warning'',
          message = ''m'', checkName = ''r'', codeLineFull = None, caretLine = None,
          fixSuggestion = None\<rparr>],
      matchedWarnings = 1, invalidSeverities = 0, currentDiagnostic = Some 0\<rparr>
     (''   '' @ ''5'' @ '' '' @ CHR ''|'' # '' char c = 1;'')
   = \<lparr>diagnostics =
        [\<lparr>filePath = ''/p/f.cpp'', line = 5, column = 9, severity = ''warning'',
          message = ''m'', checkName = ''r'', codeLineFull = Some ''char c = 1;'',
          caretLine = None, fixSuggestion = None\<rparr>],
      matchedWarnings = 1, invalidSeverities = 0, currentDiagnostic = Some 0\<rparr>"
proof -
  let ?st = "\<lparr>diagnostics =
        [\<lparr>filePath = ''/p/f.cpp'', line = 5, column = 9, severity = ''warning'',
          message = ''m'', checkName = ''r'', codeLineFull = None, caretLine = None,
          fixSuggestion = None\<rparr>],
      matchedWarnings = 1, invalidSeverities = 0, currentDiagnostic = Some 0\<rparr>"
  have h1: "currentDiagnostic ?st = Some 0" by simp
  have h2: "length ''   '' = 3" by simp
  have h3: "\<forall>c \<in> set ''   ''. isSpace c" by (simp add: isSpace_def)
  have h4: "''5'' \<noteq> []" by simp
  have h5: "\<forall>c \<in> set ''5''. isDigit c" by (simp add: isDigit_def)
  have h6: "'' '' \<noteq> []" by simp
  have h7: "\<forall>c \<in> set '' ''. isSpace c" by (simp add: isSpace_def)
  have h8: "CHR ''|'' \<notin> set '' char c = 1;''" by simp
  have t: "trim '' char c = 1;'' = ''char c = 1;''" by (simp add: trim_def isSpace_def)
  from code_line_sets_codeLineFull[OF h1 h2 h3 h4 h5 h6 h7 h8]
  show ?thesis unfolding t by simp
qed

text \<open>
  The same line with four leading spaces is no code line for the parser: nothing is
  stored and the diagnostic is no longer in progress.
\<close>

theorem code_line_four_spaces_counterexample:
  "codeLineFull (diagnostics (process_line
     \<lparr>diagnostics =
        [\<lparr>filePath = ''/p/f.cpp'', line = 5, column = 9, severity = ''warning'',
          message = ''m'', checkName = ''r'', codeLineFull = None, caretLine = None,
          fixSuggestion = None\<rparr>],
      matchedWarnings = 1, invalidSeverities = 0, currentDiagnostic = Some 0\<rparr>
     ''    5 | char c = 1;'') ! 0) = None
   \<and> currentDiagnostic (process_line
     \<lparr>diagnostics =
        [\<lparr>filePath = ''/p/f.cpp'', line = 5, column = 9, severity = ''warning'',
          message = ''m'', checkName = ''r'', codeLineFull = None, caretLine = None,
          fixSuggestion = None\<rparr>],
      matchedWarnings = 1, invalidSeverities = 0, currentDiagnostic = Some 0\<rparr>
     ''    5 | char c = 1;'') = None"
  by (simp add: parser_eval)



section \<open>Properties of \<open>parseClangTidyText\<close> and of the analysis run\<close>

lemma parse_lines_empty:
  "parse_lines [] =
     \<lparr>diagnostics = [], matchedWarnings = 0, invalidSeverities = 0, currentDiagnostic = None\<rparr>"
  by (simp add: parse_lines_def js_split_def process_line_def trim_def)

lemma parseClangTidyText_empty: "parseClangTidyText h [] = []"
  unfolding parseClangTidyText_def transformTextToDiagnostics_def parse_lines_empty
  by (simp add: enrichDiagnosticsWithSourceCode_def diagnosticsByFile_def)

text \<open>
  C8, in the form that holds of the code. A result with empty raw stdout ends the run as a failure, showing the
  error output, when its exit code is not 0; with exit code 0 it is parsed and the run
  ends as "no issues found".
\<close>

theorem empty_output_outcome:
  assumes "rawOutput result = []"
  shows "runClangTidyAnalysis_outcome h result =
         (if runExitCode result \<noteq> 0 then AnalysisFailed (errorOutput result)
          else NoIssuesFound)"
  using assms by (simp add: runClangTidyAnalysis_outcome_def parseClangTidyText_empty)

theorem empty_output_outcome_witness:
  "runClangTidyAnalysis_outcome
     \<lparr>readFileSync = no_files, maxStringLength = 536870888\<rparr>
     \<lparr>rawOutput = [], errorOutput = ''spawn clang-tidy ENOENT'', runExitCode = 1\<rparr>
   = AnalysisFailed ''spawn clang-tidy ENOENT''"
proof -
  have h: "rawOutput
     \<lparr>rawOutput = [], errorOutput = ''spawn clang-tidy ENOENT'', runExitCode = 1\<rparr> = []"
    by simp
  from empty_output_outcome[OF h] show ?thesis by simp
qed

theorem exit_zero_empty_output_counterexample:
  "runExitCode \<lparr>rawOutput = [], errorOutput = [], runExitCode = 0\<rparr> = 0
   \<and> rawOutput \<lparr>rawOutput = [], errorOutput = [], runExitCode = 0\<rparr> = []
   \<and> runClangTidyAnalysis_outcome
       \<lparr>readFileSync = no_files, maxStringLength = 536870888\<rparr>
       \<lparr>rawOutput = [], errorOutput = [], runExitCode = 0\<rparr>
     = NoIssuesFound"
  by (simp add: runClangTidyAnalysis_outcome_def parseClangTidyText_empty)




section \<open>The header pattern on a well-formed header line\<close>

subsection \<open>Numbers, severities, white space\<close>













subsection \<open>The path group\<close>




subsection \<open>The message and the rule suffix\<close>









subsection \<open>The whole pattern\<close>







subsection \<open>From the match to the diagnostic\<close>





end
